theory Spec2Isabelle
  imports Main
begin

section \<open>Errors\<close>

text \<open>
  What a JavaScript evaluation can end with instead of a value: the \<^verbatim>\<open>TypeError\<close> of
  reading a property of \<^verbatim>\<open>undefined\<close> or of calling what is not a function, and
  anything else that is thrown (by a weight function of the table, by the counter store).

  \<open>Inherited\<close> and \<open>Unsafe\<close> are no exceptions. They mark the two points at which
  an evaluation of the analyzer leaves what this theory describes: a property that an
  object only inherits from \<^verbatim>\<open>Object.prototype\<close> is read (the code goes on with a
  built-in function or object where the theory has a table entry), or a number leaves
  the safe integers, within which the arithmetic of doubles is exact (the code goes on
  with a rounded double, \<^verbatim>\<open>Infinity\<close> or \<^verbatim>\<open>NaN\<close>). The model
  evaluates in the order of the code, so an outcome \<open>Inl Inherited\<close> or \<open>Inl Unsafe\<close>
  says that the code reaches that point, and nothing about what it does from there;
  every other outcome is the code's.
\<close>

datatype error = TypeError | Thrown string | Inherited | Unsafe

section \<open>The per-client serializer: \<^verbatim>\<open>middleware/index.ts\<close>\<close>

text \<open>
  The template literal \<^verbatim>\<open>`${timestamp}${tokens}`\<close>: the decimal numerals of the two
  integers, one after the other. This is how JavaScript prints an integer of magnitude
  below \<open>10\<^sup>2\<^sup>1\<close>, as a timestamp in milliseconds and a safe-integer cost are;
  from there on it prints an exponent, which \<open>number_string\<close> does not describe.
\<close>

fun digits :: "nat \<Rightarrow> string" where
  "digits n =
     (if n < 10 then [''0123456789'' ! n]
      else digits (n div 10) @ [''0123456789'' ! (n mod 10)])"

declare digits.simps [simp del]

definition number_string :: "int \<Rightarrow> string" where
  "number_string i = (if i < 0 then CHR ''-'' # digits (nat (- i)) else digits (nat i))"

definition requestId :: "int \<Rightarrow> int \<Rightarrow> string" where
  "requestId timestamp tokens = number_string timestamp @ number_string tokens"

text \<open>
  Modelled from the spec: the admission record \<^verbatim>\<open>{ success, tokens, retryAfterMs? }\<close>
  (the declaration \<^verbatim>\<open>RateLimiterResponse\<close> of \<^verbatim>\<open>@types/rateLimit\<close> is not among the
  sources; the middleware reads \<^verbatim>\<open>success\<close> and \<^verbatim>\<open>tokens\<close>).
\<close>

datatype RateLimiterResponse =
  RateLimiterResponse (success: bool) (tokens: int) (retryAfterMs: "int option")

text \<open>
  One invocation of \<^verbatim>\<open>throttledProcess(userId, timestamp, tokens)\<close>. Each invocation
  creates a promise of its own; \<open>promise\<close> numbers it, so that two invocations with
  equal arguments are still two calls.
\<close>

datatype Call = Call (userId: string) (timestamp: int) (cost: int) (promise: nat)

datatype Settlement = Resolved RateLimiterResponse | Rejected error

text \<open>
  The state the closures of \<^verbatim>\<open>expressGraphQLRateLimiter\<close> share: \<^verbatim>\<open>requestQueue\<close>;
  the one-shot listeners registered on \<^verbatim>\<open>requestEvents\<close> (event name and the call
  whose closure it runs, in registration order); the calls whose
  \<^verbatim>\<open>rateLimiter.processRequest\<close> has been called and not yet answered; and the log of
  \<^verbatim>\<open>resolve\<close> and \<^verbatim>\<open>reject\<close> calls (whose call's promise, and with what), oldest
  first.
\<close>

record Serializer =
  requestQueue :: "string \<rightharpoonup> string list"
  requestEvents :: "(string \<times> Call) list"
  inFlight :: "Call list"
  settled :: "(Call \<times> Settlement) list"

definition initial :: Serializer where
  "initial = \<lparr>requestQueue = Map.empty, requestEvents = [], inFlight = [], settled = []\<rparr>"

text \<open>
  \<^verbatim>\<open>processRequestResolver\<close> runs up to its \<^verbatim>\<open>await\<close>: the bucket call is made.
\<close>

definition processRequestResolver_call :: "Call \<Rightarrow> Serializer \<Rightarrow> Serializer" where
  "processRequestResolver_call c s = s\<lparr>inFlight := inFlight s @ [c]\<rparr>"

text \<open>
  \<^verbatim>\<open>requestEvents.emit(event)\<close>: every listener registered for the event runs, in
  registration order, and is removed (\<^verbatim>\<open>once\<close>). Each listener calls
  \<^verbatim>\<open>processRequestResolver\<close>, which runs to its \<^verbatim>\<open>await\<close>.
\<close>

definition emit :: "string \<Rightarrow> Serializer \<Rightarrow> Serializer" where
  "emit event s =
     fold processRequestResolver_call
       (map snd (filter (\<lambda>l. fst l = event) (requestEvents s)))
       (s\<lparr>requestEvents := filter (\<lambda>l. fst l \<noteq> event) (requestEvents s)\<rparr>)"

text \<open>
  \<^verbatim>\<open>processRequestResolver\<close> from its \<^verbatim>\<open>await\<close> on, with the bucket's answer: \<open>Inl\<close>
  when the awaited promise rejects. Reading \<^verbatim>\<open>requestQueue[userId].slice\<close> of a deleted
  queue throws inside the \<^verbatim>\<open>try\<close> and ends in the \<^verbatim>\<open>catch\<close> as well. The next
  event name \<^verbatim>\<open>requestQueue[userId][0]\<close> of an empty queue is \<^verbatim>\<open>undefined\<close>, which no
  listener is registered for.
\<close>

definition processRequestResolver_resume ::
  "Call \<Rightarrow> error + RateLimiterResponse \<Rightarrow> Serializer \<Rightarrow> Serializer" where
  "processRequestResolver_resume c answer s0 =
     (let s = s0\<lparr>inFlight := remove1 c (inFlight s0)\<rparr> in
      case answer of
        Inl err \<Rightarrow> s\<lparr>settled := settled s @ [(c, Rejected err)]\<rparr>
      | Inr response \<Rightarrow>
          (case requestQueue s (userId c) of
             None \<Rightarrow> s\<lparr>settled := settled s @ [(c, Rejected TypeError)]\<rparr>
           | Some q \<Rightarrow>
               (let s1 = s\<lparr>requestQueue := (requestQueue s)(userId c \<mapsto> tl q)\<rparr>;
                    s2 = s1\<lparr>settled := settled s1 @ [(c, Resolved response)]\<rparr>;
                    s3 = (case tl q of [] \<Rightarrow> s2 | next_id # _ \<Rightarrow> emit next_id s2)
                in if length (tl q) = 0
                   then s3\<lparr>requestQueue := (requestQueue s3)(userId c := None)\<rparr>
                   else s3)))"

text \<open>
  \<^verbatim>\<open>throttledProcess\<close>: the request id is pushed on the client's queue (created when
  absent); the executor of the new promise either registers a one-shot listener under
  the request id, or calls \<^verbatim>\<open>processRequestResolver\<close> at once.
\<close>

definition throttledProcess :: "Call \<Rightarrow> Serializer \<Rightarrow> Serializer" where
  "throttledProcess c s =
     (let rid = requestId (timestamp c) (cost c);
          q = (case requestQueue s (userId c) of None \<Rightarrow> [] | Some q \<Rightarrow> q) @ [rid];
          s1 = s\<lparr>requestQueue := (requestQueue s)(userId c \<mapsto> q)\<rparr>
      in if length q > 1 then s1\<lparr>requestEvents := requestEvents s1 @ [(rid, c)]\<rparr>
         else processRequestResolver_call c s1)"

text \<open>
  The event loop runs one handler at a time, so an interleaving of concurrent calls is a
  sequence of two kinds of turns: a request enters \<^verbatim>\<open>throttledProcess\<close>, or the bucket
  answers a call that is in flight. \<open>run\<close> is \<open>None\<close> for a sequence that answers
  a call which is not in flight.
\<close>

datatype Turn = Request Call | Answer Call "error + RateLimiterResponse"

fun turn :: "Turn \<Rightarrow> Serializer \<Rightarrow> Serializer option" where
  "turn (Request c) s = Some (throttledProcess c s)"
| "turn (Answer c answer) s =
     (if c \<in> set (inFlight s) then Some (processRequestResolver_resume c answer s) else None)"

fun run :: "Turn list \<Rightarrow> Serializer \<Rightarrow> Serializer option" where
  "run [] s = Some s"
| "run (t # ts) s = (case turn t s of None \<Rightarrow> None | Some s' \<Rightarrow> run ts s')"

text \<open>
  For the ordering property: the request id of a call; the calls that entered in a
  sequence of turns, in arrival order; and a sequence in which no bucket call fails.
\<close>

definition rid :: "Call \<Rightarrow> string" where
  "rid c = requestId (timestamp c) (cost c)"

fun requests :: "Turn list \<Rightarrow> Call list" where
  "requests [] = []"
| "requests (Request c # ts) = c # requests ts"
| "requests (Answer c a # ts) = requests ts"

fun admitted_only :: "Turn list \<Rightarrow> bool" where
  "admitted_only [] = True"
| "admitted_only (Request c # ts) = admitted_only ts"
| "admitted_only (Answer c (Inr r) # ts) = admitted_only ts"
| "admitted_only (Answer c (Inl e) # ts) = False"

definition of_client :: "string \<Rightarrow> Call list \<Rightarrow> Call list" where
  "of_client u cs = filter (\<lambda>c. userId c = u) cs"

text \<open>
  The invariant of the serializer while request ids are distinct and no bucket call
  fails, relative to the pending calls \<open>P u\<close> of each client in arrival order: the
  client's queue holds their ids, the first of them is the client's call in flight,
  the others wait for their events. \<open>fifo\<close> adds that the calls of a client settled
  so far, followed by its pending calls, are its calls in arrival order.
\<close>

definition heads :: "(string \<Rightarrow> Call list) \<Rightarrow> Call set" where
  "heads P = {c. \<exists>u. P u \<noteq> [] \<and> c = hd (P u)}"

definition waiting :: "(string \<Rightarrow> Call list) \<Rightarrow> (string \<times> Call) set" where
  "waiting P = {(rid c, c) | c u. c \<in> set (tl (P u))}"

definition serializes :: "Serializer \<Rightarrow> (string \<Rightarrow> Call list) \<Rightarrow> bool" where
  "serializes s P \<longleftrightarrow>
     (\<forall>u. requestQueue s u = (if P u = [] then None else Some (map rid (P u)))) \<and>
     (\<forall>u. \<forall>c \<in> set (P u). userId c = u) \<and>
     (\<forall>u u'. \<forall>c \<in> set (P u). \<forall>c' \<in> set (P u'). rid c = rid c' \<longrightarrow> c = c') \<and>
     (\<forall>u. distinct (P u)) \<and>
     set (inFlight s) = heads P \<and>
     distinct (inFlight s) \<and>
     set (requestEvents s) = waiting P \<and>
     distinct (requestEvents s)"

definition fifo :: "Serializer \<Rightarrow> (string \<Rightarrow> Call list) \<Rightarrow> Call list \<Rightarrow> bool" where
  "fifo s P A \<longleftrightarrow>
     serializes s P \<and> (\<forall>u. of_client u A = of_client u (map fst (settled s)) @ P u)"

section \<open>The request handler: \<^verbatim>\<open>middleware/index.ts\<close>\<close>

text \<open>
  \<^verbatim>\<open>res.locals.graphqlGate\<close>, and the Express response as far as the handler writes
  it: \<^verbatim>\<open>locals\<close>, the status code, the headers set, and the argument of \<^verbatim>\<open>json\<close>
  (\<open>Some None\<close> is \<^verbatim>\<open>json(undefined)\<close>).
\<close>

datatype GraphqlGate =
  GraphqlGate (gate_timestamp: int) (gate_complexity: int) (gate_tokens: int)
    (gate_success: bool) (gate_depth: "nat option")

record Response =
  locals :: "string \<rightharpoonup> GraphqlGate"
  statusCode :: "nat option"
  headers :: "(string \<times> string) list"
  body :: "GraphqlGate option option"

definition fresh_response :: Response where
  "fresh_response = \<lparr>locals = Map.empty, statusCode = None, headers = [], body = None\<rparr>"

datatype Outcome = Sent Response | Next Response | NextError error Response

text \<open>
  The handler from \<^verbatim>\<open>await throttledProcess(...)\<close> on; \<open>answer\<close> is what the awaited
  promise settles with. The only header this part could set is the \<^verbatim>\<open>Retry-After\<close>
  of the commented-out \<^verbatim>\<open>.set\<close> call.
\<close>

definition expressGraphQLRateLimiter_handler ::
  "bool \<Rightarrow> int \<Rightarrow> int \<Rightarrow> error + RateLimiterResponse \<Rightarrow> Response \<Rightarrow> Outcome" where
  "expressGraphQLRateLimiter_handler dark requestTimestamp queryComplexity answer res =
     (case answer of
        Inl err \<Rightarrow> NextError err res
      | Inr rateLimiterResponse \<Rightarrow>
          (let res1 = res\<lparr>locals := (locals res)(''graphqlGate'' \<mapsto>
                 GraphqlGate requestTimestamp queryComplexity (tokens rateLimiterResponse)
                   (success rateLimiterResponse) None)\<rparr>
           in if \<not> success rateLimiterResponse \<and> \<not> dark
              then Sent (res1\<lparr>statusCode := Some 429, body := Some (locals res1 ''graphqlgate'')\<rparr>)
              else Next res1))"

section \<open>The query AST (the part of graphql-js the analyzer reads)\<close>

text \<open>
  A value node of an argument, as the parser produces it. Numbers are kept as the
  integers they denote; the analyzer itself never inspects a value node, it only hands
  the argument list to a field's weight function.
\<close>

datatype ValueNode =
    Variable string
  | IntValue int
  | StringValue string
  | BooleanValue bool
  | NullValue
  | EnumValue string

datatype ArgumentNode = ArgumentNode (arg_name: string) (arg_value: ValueNode)

text \<open>
  \<^verbatim>\<open>FieldNode\<close> has an optional \<^verbatim>\<open>arguments\<close> array and an optional
  \<^verbatim>\<open>selectionSet\<close>; an absent property is \<open>None\<close>. A selection is a field, a
  fragment spread or an inline fragment (\<^verbatim>\<open>node.kind\<close>).
\<close>

datatype SelectionNode =
    Field FieldNode
  | FragmentSpread string
  | InlineFragment "string option" SelectionSetNode
and FieldNode =
    FieldNode (field_name: string) (field_alias: "string option")
      (field_arguments: "ArgumentNode list option")
      (field_selectionSet: "SelectionSetNode option")
and SelectionSetNode =
    SelectionSetNode (selections: "SelectionNode list")

text \<open>
  \<^verbatim>\<open>OperationTypeNode\<close> is the enumeration \<^verbatim>\<open>'query' | 'mutation' | 'subscription'\<close>;
  \<open>operation_string\<close> gives the string each member is.
\<close>

datatype OperationTypeNode = QUERY | MUTATION | SUBSCRIPTION

fun operation_string :: "OperationTypeNode \<Rightarrow> string" where
  "operation_string QUERY = ''query''"
| "operation_string MUTATION = ''mutation''"
| "operation_string SUBSCRIPTION = ''subscription''"

text \<open>
  A definition of a document: an operation definition, a fragment definition, or one of
  the type-system definitions, which carry nothing the analyzer reads.
\<close>

datatype DefinitionNode =
    OperationDefinition OperationTypeNode "string option" "SelectionSetNode option"
  | FragmentDefinition string string SelectionSetNode
  | TypeSystemDefinition

datatype DocumentNode = DocumentNode (definitions: "DefinitionNode list")

section \<open>The weight table\<close>

text \<open>A value of the request's variables mapping.\<close>

datatype JsValue = JNumber int | JString string | JBoolean bool | JNull

type_synonym Variables = "string \<rightharpoonup> JsValue"

text \<open>
  \<^verbatim>\<open>FieldWeight\<close> is declared in \<^verbatim>\<open>@types/buildTypeWeights\<close>, which the analyzer
  imports. The analyzer tests \<^verbatim>\<open>typeof fieldWeight === 'number'\<close> and otherwise calls
  \<^verbatim>\<open>fieldWeight\<close> with the field's argument nodes and \<^verbatim>\<open>variables[node.name.value]\<close>:
  a field weight is a number or a function of these two. The second argument is
  \<open>None\<close> when the variables mapping has no such key (\<^verbatim>\<open>undefined\<close>).
\<close>

datatype FieldWeight =
    Number int
  | WeightFunction "ArgumentNode list \<Rightarrow> JsValue option \<Rightarrow> error + int"

datatype TypeWeight = TypeWeight (weight: int) (fields: "string \<rightharpoonup> FieldWeight")

type_synonym TypeWeightObject = "string \<rightharpoonup> TypeWeight"

section \<open>Lower-casing of names\<close>

text \<open>
  \<^verbatim>\<open>toLocaleLowerCase\<close> on a GraphQL name, whose characters are ASCII letters, digits
  and the underscore: the letters \<open>A\<close> to \<open>Z\<close> move to \<open>a\<close> to \<open>z\<close> (in every
  locale whose lower-casing of ASCII is the usual one).
\<close>

definition lower_char :: "char \<Rightarrow> char" where
  "lower_char c =
     (case map_of (zip ''ABCDEFGHIJKLMNOPQRSTUVWXYZ'' ''abcdefghijklmnopqrstuvwxyz'') c of
        None \<Rightarrow> c
      | Some l \<Rightarrow> l)"

definition toLocaleLowerCase :: "string \<Rightarrow> string" where
  "toLocaleLowerCase s = map lower_char s"

section \<open>Objects as dictionaries, numbers as safe integers\<close>

text \<open>
  The weight table, the \<^verbatim>\<open>fields\<close> of an entry and the variables mapping are plain
  objects: besides their own keys they have the properties of \<^verbatim>\<open>Object.prototype\<close>.
\<close>

definition object_prototype :: "string list" where
  "object_prototype =
     [''constructor'', ''__defineGetter__'', ''__defineSetter__'', ''hasOwnProperty'',
      ''__lookupGetter__'', ''__lookupSetter__'', ''isPrototypeOf'', ''propertyIsEnumerable'',
      ''toString'', ''valueOf'', ''__proto__'', ''toLocaleString'']"

definition inherited :: "string \<Rightarrow> bool" where
  "inherited k = (k \<in> set object_prototype)"

text \<open>\<^verbatim>\<open>k in obj\<close>: an own key, or a property found through the prototype.\<close>

definition js_in :: "string \<Rightarrow> (string \<rightharpoonup> 'a) \<Rightarrow> bool" where
  "js_in k obj = (case obj k of None \<Rightarrow> inherited k | Some _ \<Rightarrow> True)"

text \<open>
  \<^verbatim>\<open>obj[k]\<close>: the value under an own key, a built-in of the prototype, or
  \<^verbatim>\<open>undefined\<close>.
\<close>

datatype 'a property = Own 'a | FromPrototype | Undefined

definition js_get :: "(string \<rightharpoonup> 'a) \<Rightarrow> string \<Rightarrow> 'a property" where
  "js_get obj k =
     (case obj k of
        Some v \<Rightarrow> Own v
      | None \<Rightarrow> if inherited k then FromPrototype else Undefined)"

text \<open>
  \<^verbatim>\<open>Number.MAX_SAFE_INTEGER\<close> is \<open>2\<^sup>5\<^sup>3 - 1\<close>. Every integer of at most that
  magnitude is a double, and a sum or product of two of them that is again of at most
  that magnitude is computed exactly; so is their comparison. \<open>number n\<close> is the
  result \<open>n\<close> of such an operation when it stays in that range.
\<close>

definition MAX_SAFE_INTEGER :: int where
  "MAX_SAFE_INTEGER = 9007199254740991"

definition safe :: "int \<Rightarrow> bool" where
  "safe n = (- MAX_SAFE_INTEGER \<le> n \<and> n \<le> MAX_SAFE_INTEGER)"

definition number :: "int \<Rightarrow> error + int" where
  "number n = (if safe n then Inr n else Inl Unsafe)"

text \<open>
  An integer that is a double: a significand of at most 53 bits times a power of two
  (the bound on the exponent plays no role below).
\<close>

definition is_double :: "int \<Rightarrow> bool" where
  "is_double n = (\<exists>m e. \<bar>m\<bar> < 2 ^ 53 \<and> n = m * 2 ^ e)"

section \<open>The analyzer: \<^verbatim>\<open>ASTnodefunctions.ts\<close>\<close>

text \<open>
  \<^verbatim>\<open>selectionsCost <= 1 ? selectionsCost + weight : selectionsCost * weight\<close>, the
  expression both non-scalar branches of \<^verbatim>\<open>fieldNode\<close> end with: \<open>combine\<close> is its
  value over the integers, \<open>js_combine\<close> its evaluation on a safe \<open>selectionsCost\<close>.
\<close>

definition combine :: "int \<Rightarrow> int \<Rightarrow> int" where
  "combine selectionsCost w =
     (if selectionsCost \<le> 1 then selectionsCost + w else selectionsCost * w)"

definition js_combine :: "int \<Rightarrow> int \<Rightarrow> error + int" where
  "js_combine selectionsCost w =
     (if safe w then number (combine selectionsCost w) else Inl Unsafe)"

text \<open>
  \<^verbatim>\<open>if (node.arguments) weight += fieldWeight([...node.arguments], variables[node.name.value])\<close>
  with \<^verbatim>\<open>weight\<close> being 0 before: the second argument is read from the variables
  mapping, then the field weight is called, which throws when it is
  \<^verbatim>\<open>undefined\<close>; what it returns is added to 0.
\<close>

definition call_fieldWeight ::
  "FieldWeight property \<Rightarrow> ArgumentNode list option \<Rightarrow> Variables \<Rightarrow> string \<Rightarrow> error + int" where
  "call_fieldWeight fieldWeight arguments variables name =
     (case arguments of
        None \<Rightarrow> Inr 0
      | Some args \<Rightarrow>
          (case fieldWeight of
             Own (WeightFunction f) \<Rightarrow>
               (case js_get variables name of
                  FromPrototype \<Rightarrow> Inl Inherited
                | Own v \<Rightarrow> (case f args (Some v) of Inl e \<Rightarrow> Inl e | Inr m \<Rightarrow> number m)
                | Undefined \<Rightarrow> (case f args None of Inl e \<Rightarrow> Inl e | Inr m \<Rightarrow> number m))
           | _ \<Rightarrow> Inl TypeError))"

text \<open>
  The mutually recursive node functions. Reading \<^verbatim>\<open>typeWeights[k]\<close> at an absent key gives
  \<^verbatim>\<open>undefined\<close>, and the destructuring or property access that follows throws:
  \<open>Inl TypeError\<close>. An absent field weight is neither a number nor a function; the
  source takes it down the list branch, where calling it throws. The \<^verbatim>\<open>for\<close> loop
  of \<^verbatim>\<open>selectionSetNode\<close> is \<open>selectionSetNode_loop\<close>, with the running
  \<^verbatim>\<open>complexity\<close> as accumulator. Each \<^verbatim>\<open>+=\<close> is a \<open>number\<close>.
\<close>

fun fieldNode :: "FieldNode \<Rightarrow> TypeWeightObject \<Rightarrow> Variables \<Rightarrow> string \<Rightarrow> error + int"
and selectionNode :: "SelectionNode \<Rightarrow> TypeWeightObject \<Rightarrow> Variables \<Rightarrow> string \<Rightarrow> error + int"
and selectionSetNode :: "SelectionSetNode \<Rightarrow> TypeWeightObject \<Rightarrow> Variables \<Rightarrow> string \<Rightarrow> error + int"
and selectionSetNode_loop ::
  "SelectionNode list \<Rightarrow> TypeWeightObject \<Rightarrow> Variables \<Rightarrow> string \<Rightarrow> int \<Rightarrow> error + int"
where
  "fieldNode (FieldNode name alias arguments selectionSet) typeWeights variables parentName =
     (if js_in (toLocaleLowerCase name) typeWeights then
        (case js_get typeWeights name of
           Undefined \<Rightarrow> Inl TypeError
         | FromPrototype \<Rightarrow> Inl Inherited
         | Own t \<Rightarrow>
             (case (case selectionSet of
                      None \<Rightarrow> Inr 0
                    | Some ss \<Rightarrow> selectionSetNode ss typeWeights variables name) of
                Inl e \<Rightarrow> Inl e
              | Inr selectionsCost \<Rightarrow> js_combine selectionsCost (weight t)))
      else
        (case js_get typeWeights parentName of
           Undefined \<Rightarrow> Inl TypeError
         | FromPrototype \<Rightarrow> Inl Inherited
         | Own p \<Rightarrow>
             (case js_get (fields p) name of
                FromPrototype \<Rightarrow> Inl Inherited
              | Own (Number fieldWeight) \<Rightarrow> number fieldWeight
              | fieldWeight \<Rightarrow>
                  (case (case selectionSet of
                           None \<Rightarrow> Inr 0
                         | Some ss \<Rightarrow> selectionSetNode ss typeWeights variables name) of
                     Inl e \<Rightarrow> Inl e
                   | Inr selectionsCost \<Rightarrow>
                       (case call_fieldWeight fieldWeight arguments variables name of
                          Inl e \<Rightarrow> Inl e
                        | Inr w \<Rightarrow> js_combine selectionsCost w)))))"
| "selectionNode (Field node) typeWeights variables parentName =
     fieldNode node typeWeights variables parentName"
| "selectionNode (FragmentSpread _) typeWeights variables parentName = Inr 0"
| "selectionNode (InlineFragment _ _) typeWeights variables parentName = Inr 0"
| "selectionSetNode (SelectionSetNode sels) typeWeights variables parentName =
     selectionSetNode_loop sels typeWeights variables parentName 0"
| "selectionSetNode_loop [] typeWeights variables parentName complexity = Inr complexity"
| "selectionSetNode_loop (node # rest) typeWeights variables parentName complexity =
     (case selectionNode node typeWeights variables parentName of
        Inl e \<Rightarrow> Inl e
      | Inr c \<Rightarrow>
          (case number (complexity + c) of
             Inl e \<Rightarrow> Inl e
           | Inr k \<Rightarrow> selectionSetNode_loop rest typeWeights variables parentName k))"

fun definitionNode :: "DefinitionNode \<Rightarrow> TypeWeightObject \<Rightarrow> Variables \<Rightarrow> error + int" where
  "definitionNode (OperationDefinition operation _ selectionSet) typeWeights variables =
     (if js_in (toLocaleLowerCase (operation_string operation)) typeWeights then
        (case js_get typeWeights (operation_string operation) of
           Undefined \<Rightarrow> Inl TypeError
         | FromPrototype \<Rightarrow> Inl Inherited
         | Own t \<Rightarrow>
             (case number (weight t) of
                Inl e \<Rightarrow> Inl e
              | Inr complexity \<Rightarrow>
                  (case selectionSet of
                     None \<Rightarrow> Inr complexity
                   | Some ss \<Rightarrow>
                       (case selectionSetNode ss typeWeights variables (operation_string operation) of
                          Inl e \<Rightarrow> Inl e
                        | Inr c \<Rightarrow> number (complexity + c)))))
      else Inr 0)"
| "definitionNode (FragmentDefinition _ _ _) typeWeights variables = Inr 0"
| "definitionNode TypeSystemDefinition typeWeights variables = Inr 0"

fun documentNode_loop ::
  "DefinitionNode list \<Rightarrow> TypeWeightObject \<Rightarrow> Variables \<Rightarrow> int \<Rightarrow> error + int" where
  "documentNode_loop [] typeWeights variables complexity = Inr complexity"
| "documentNode_loop (node # rest) typeWeights variables complexity =
     (case definitionNode node typeWeights variables of
        Inl e \<Rightarrow> Inl e
      | Inr c \<Rightarrow>
          (case number (complexity + c) of
             Inl e \<Rightarrow> Inl e
           | Inr k \<Rightarrow> documentNode_loop rest typeWeights variables k))"

fun documentNode :: "DocumentNode \<Rightarrow> TypeWeightObject \<Rightarrow> Variables \<Rightarrow> error + int" where
  "documentNode (DocumentNode defs) typeWeights variables =
     documentNode_loop defs typeWeights variables 0"



section \<open>Weight tables and queries of the repository's tests\<close>

text \<open>
  The weight table of \<^verbatim>\<open>typeComplexityAnalysis.test.ts\<close>, in the analyzer's own
  \<^verbatim>\<open>FieldWeight\<close> type: a test entry \<^verbatim>\<open>{ weight: 0 }\<close> is the number \<open>0\<close>, an entry
  \<^verbatim>\<open>{ resolveTo: t, weight: f }\<close> is the function \<open>f\<close>, and an entry that only names
  a \<^verbatim>\<open>resolveTo\<close> type has no weight to give. The weight functions (mocks in the
  test) are parameters: root query weight 1, object weight 1, scalar weight 0. (Given
  the entries as the test file writes them, objects, \<^verbatim>\<open>typeof fieldWeight\<close> is never
  \<^verbatim>\<open>'number'\<close> and the analyzer throws at the first leaf field, where it calls the
  object.)
\<close>

type_synonym WeightFn = "ArgumentNode list \<Rightarrow> JsValue option \<Rightarrow> error + int"

definition testTypeWeights :: "WeightFn \<Rightarrow> WeightFn \<Rightarrow> WeightFn \<Rightarrow> WeightFn \<Rightarrow> TypeWeightObject" where
  "testTypeWeights reviewsFn searchFn humanFriendsFn droidFriendsFn = map_of
     [(''query'', TypeWeight 1 (map_of
         [(''reviews'', WeightFunction reviewsFn), (''search'', WeightFunction searchFn)])),
      (''episode'', TypeWeight 0 Map.empty),
      (''character'', TypeWeight 1 (map_of
         [(''id'', Number 0), (''name'', Number 0),
          (''friends'', WeightFunction humanFriendsFn), (''scalarList'', Number 0)])),
      (''human'', TypeWeight 1 (map_of
         [(''id'', Number 0), (''name'', Number 0), (''homePlanet'', Number 0),
          (''friends'', WeightFunction humanFriendsFn)])),
      (''droid'', TypeWeight 1 (map_of
         [(''id'', Number 0), (''name'', Number 0), (''primaryFunction'', Number 0),
          (''friends'', WeightFunction droidFriendsFn)])),
      (''review'', TypeWeight 1 (map_of
         [(''stars'', Number 0), (''commentary'', Number 0)])),
      (''searchresult'', TypeWeight 1 Map.empty),
      (''scalars'', TypeWeight 1 (map_of
         [(''num'', Number 0), (''id'', Number 0), (''float'', Number 0),
          (''bool'', Number 0), (''string'', Number 0)])),
      (''test'', TypeWeight 1 (map_of [(''name'', Number 0)]))]"

text \<open>A leaf field as the parser gives it: an empty argument array, no selection set.\<close>

definition leaf :: "string \<Rightarrow> SelectionNode" where
  "leaf name = Field (FieldNode name None (Some []) None)"

definition query_of :: "SelectionNode list \<Rightarrow> DocumentNode" where
  "query_of sels = DocumentNode [OperationDefinition QUERY None (Some (SelectionSetNode sels))]"


text \<open>\<^verbatim>\<open>query { reviews(episode: EMPIRE, first: 3) { stars, commentary } }\<close>\<close>

definition reviewsField :: FieldNode where
  "reviewsField = FieldNode ''reviews'' None
     (Some [ArgumentNode ''episode'' (EnumValue ''EMPIRE''), ArgumentNode ''first'' (IntValue 3)])
     (Some (SelectionSetNode [leaf ''stars'', leaf ''commentary'']))"

definition reviewsQuery :: DocumentNode where
  "reviewsQuery = query_of [Field reviewsField]"

text \<open>
  \<^verbatim>\<open>query { human(id: 1) { name, friends(first: 5) { name, friends(first: 3) { name } } } }\<close>
\<close>

definition nestedListsQuery :: DocumentNode where
  "nestedListsQuery = query_of
     [Field (FieldNode ''human'' None (Some [ArgumentNode ''id'' (IntValue 1)])
        (Some (SelectionSetNode
           [leaf ''name'',
            Field (FieldNode ''friends'' None (Some [ArgumentNode ''first'' (IntValue 5)])
              (Some (SelectionSetNode
                 [leaf ''name'',
                  Field (FieldNode ''friends'' None (Some [ArgumentNode ''first'' (IntValue 3)])
                    (Some (SelectionSetNode [leaf ''name''])))])))])))]"

text \<open>
  The weight table of \<^verbatim>\<open>weightFunction.test.ts\<close>, built there from the schema
  \<^verbatim>\<open>type Query { reviews(episode: Episode!, first: Int = 5): [Review]
    heroes(episode: Episode!, first: Int): [Review] ... }\<close>,
  with the weight functions of the four list fields as parameters.
\<close>

definition weightFunctionTypeWeights ::
  "WeightFn \<Rightarrow> WeightFn \<Rightarrow> WeightFn \<Rightarrow> WeightFn \<Rightarrow> TypeWeightObject" where
  "weightFunctionTypeWeights reviewsFn heroesFn villainsFn charactersFn = map_of
     [(''query'', TypeWeight 1 (map_of
         [(''reviews'', WeightFunction reviewsFn), (''heroes'', WeightFunction heroesFn),
          (''villains'', WeightFunction villainsFn),
          (''characters'', WeightFunction charactersFn)])),
      (''review'', TypeWeight 1 (map_of
         [(''stars'', Number 0), (''commentary'', Number 0)])),
      (''episode'', TypeWeight 0 Map.empty)]"

text \<open>
  \<^verbatim>\<open>query ($items: Int) { heroes(episode: NEWHOPE, first: $items) { stars, episode } }\<close>
\<close>

definition heroesQuery :: DocumentNode where
  "heroesQuery = query_of
     [Field (FieldNode ''heroes'' None
        (Some [ArgumentNode ''episode'' (EnumValue ''NEWHOPE''),
               ArgumentNode ''first'' (Variable ''items'')])
        (Some (SelectionSetNode [leaf ''stars'', leaf ''episode''])))]"

text \<open>
  The same query with \<^verbatim>\<open>{ episode }\<close> as its selection set: \<^verbatim>\<open>episode\<close> is a key
  of the weight table.
\<close>

definition heroesEpisodeQuery :: DocumentNode where
  "heroesEpisodeQuery = query_of
     [Field (FieldNode ''heroes'' None
        (Some [ArgumentNode ''episode'' (EnumValue ''NEWHOPE''),
               ArgumentNode ''first'' (Variable ''items'')])
        (Some (SelectionSetNode [leaf ''episode''])))]"

text \<open>
  A weight table with a scalar weight of 1 (\<^verbatim>\<open>typeWeights: { scalar: 1 }\<close>) for
  \<^verbatim>\<open>type Query { scalars: Scalars }  type Scalars { num: Int }\<close>.
\<close>

definition scalarOneTypeWeights :: TypeWeightObject where
  "scalarOneTypeWeights = map_of
     [(''query'', TypeWeight 1 Map.empty),
      (''scalars'', TypeWeight 1 (map_of [(''num'', Number 1)]))]"

text \<open>\<^verbatim>\<open>scalars { num }\<close>, and the same selection under the field name \<^verbatim>\<open>Scalars\<close>.\<close>

definition scalarsField :: FieldNode where
  "scalarsField = FieldNode ''scalars'' None (Some []) (Some (SelectionSetNode [leaf ''num'']))"

definition capitalScalarsField :: FieldNode where
  "capitalScalarsField =
     FieldNode ''Scalars'' None (Some []) (Some (SelectionSetNode [leaf ''num'']))"


text \<open>
  \<^verbatim>\<open>query { constructor }\<close>: a field named like a property every object inherits.
\<close>

definition constructorQuery :: DocumentNode where
  "constructorQuery = query_of [leaf ''constructor'']"

text \<open>
  A weight table with an object weight of \<^verbatim>\<open>Number.MAX_SAFE_INTEGER\<close> and a scalar
  weight of 1 for \<^verbatim>\<open>type Query { big: Big }  type Big { a: Int, b: Int, c: Int }\<close>, and
  the selection \<^verbatim>\<open>big { a b c }\<close>.
\<close>

definition bigTypeWeights :: TypeWeightObject where
  "bigTypeWeights = map_of
     [(''query'', TypeWeight 1 Map.empty),
      (''big'', TypeWeight 9007199254740991
         (map_of [(''a'', Number 1), (''b'', Number 1), (''c'', Number 1)]))]"

definition bigField :: FieldNode where
  "bigField = FieldNode ''big'' None (Some [])
     (Some (SelectionSetNode [leaf ''a'', leaf ''b'', leaf ''c'']))"

text \<open>A weight function that returns 3 whatever it is given, as a mock does.\<close>

definition returns3 :: WeightFn where
  "returns3 args v = Inr 3"

text \<open>
  Three calls of one client: \<open>callB\<close> and \<open>callC\<close> arrive in the same millisecond
  with queries of the same complexity. \<open>admitted\<close> is a bucket answer.
\<close>

definition callA :: Call where "callA = Call ''10.0.0.1'' 1 1 0"
definition callB :: Call where "callB = Call ''10.0.0.1'' 2 2 1"
definition callC :: Call where "callC = Call ''10.0.0.1'' 2 2 2"

definition admitted :: "error + RateLimiterResponse" where
  "admitted = Inr (RateLimiterResponse True 5 None)"

text \<open>A bucket answer that rejects: \<^verbatim>\<open>{ success: false, tokens: 4, retryAfterMs: 2000 }\<close>.\<close>

definition rejected :: "error + RateLimiterResponse" where
  "rejected = Inr (RateLimiterResponse False 4 (Some 2000))"

section \<open>Facts about the analyzer\<close>

lemmas lookup_defs =
  leaf_def query_of_def js_in_def js_get_def inherited_def object_prototype_def
  toLocaleLowerCase_def lower_char_def number_def js_combine_def safe_def MAX_SAFE_INTEGER_def
  call_fieldWeight_def


lemma number_Inr: "number n = Inr k \<longleftrightarrow> safe n \<and> k = n"
  by (auto simp: number_def)


text \<open>An odd integer beyond \<open>2\<^sup>5\<^sup>3\<close> is no double.\<close>

lemma odd_large_not_double:
  assumes "odd n" and "2 ^ 53 \<le> \<bar>n\<bar>"
  shows "\<not> is_double n"
proof
  assume "is_double n"
  then obtain m e where m: "\<bar>m\<bar> < 2 ^ 53" and n: "n = m * 2 ^ e"
    by (auto simp: is_double_def)
  show False
  proof (cases e)
    case 0
    with n m assms(2) show False by simp
  next
    case (Suc k)
    with n have "even n" by simp
    with assms(1) show False by simp
  qed
qed

text \<open>The loops: a list of nodes is costed part by part, and what a loop returns is safe.\<close>

lemma selectionSetNode_loop_append:
  "selectionSetNode_loop (xs @ ys) T V p acc =
     (case selectionSetNode_loop xs T V p acc of
        Inl e \<Rightarrow> Inl e
      | Inr a \<Rightarrow> selectionSetNode_loop ys T V p a)"
  by (induction xs arbitrary: acc) (auto split: sum.splits)

lemma selectionSetNode_loop_safe:
  "selectionSetNode_loop xs T V p acc = Inr a \<Longrightarrow> safe acc \<Longrightarrow> safe a"
  by (induction xs arbitrary: acc) (auto simp: number_Inr split: sum.splits)

lemma selectionSetNode_loop_skip:
  assumes "selectionNode n T V p = Inr 0" and "safe acc"
  shows "selectionSetNode_loop (xs @ n # ys) T V p acc = selectionSetNode_loop (xs @ ys) T V p acc"
proof (cases "selectionSetNode_loop xs T V p acc")
  case (Inl e)
  then show ?thesis by (simp add: selectionSetNode_loop_append)
next
  case (Inr a)
  from selectionSetNode_loop_safe[OF Inr assms(2)] have "number (a + 0) = Inr a"
    by (simp add: number_def)
  with Inr assms(1) show ?thesis by (simp add: selectionSetNode_loop_append)
qed

lemma documentNode_loop_append:
  "documentNode_loop (xs @ ys) T V acc =
     (case documentNode_loop xs T V acc of
        Inl e \<Rightarrow> Inl e
      | Inr a \<Rightarrow> documentNode_loop ys T V a)"
  by (induction xs arbitrary: acc) (auto split: sum.splits)

lemma documentNode_loop_safe:
  "documentNode_loop xs T V acc = Inr a \<Longrightarrow> safe acc \<Longrightarrow> safe a"
  by (induction xs arbitrary: acc) (auto simp: number_Inr split: sum.splits)

lemma documentNode_loop_skip:
  assumes "definitionNode d T V = Inr 0" and "safe acc"
  shows "documentNode_loop (xs @ d # ys) T V acc = documentNode_loop (xs @ ys) T V acc"
proof (cases "documentNode_loop xs T V acc")
  case (Inl e)
  then show ?thesis by (simp add: documentNode_loop_append)
next
  case (Inr a)
  from documentNode_loop_safe[OF Inr assms(2)] have "number (a + 0) = Inr a"
    by (simp add: number_def)
  with Inr assms(1) show ?thesis by (simp add: documentNode_loop_append)
qed






text \<open>
  What the list branch of \<^verbatim>\<open>fieldNode\<close> computes: the selection set is costed with the
  field's own name as parent, the weight function is given the argument nodes and the
  variables entry under the field's name.
\<close>

lemma fieldNode_list_branch:
  assumes "\<not> js_in (toLocaleLowerCase name) T"
    and "T parentName = Some p"
    and "fields p name = Some (WeightFunction f)"
    and "(case selectionSet of None \<Rightarrow> Inr 0 | Some ss \<Rightarrow> selectionSetNode ss T V name) = Inr s"
    and "\<not> inherited name \<or> V name \<noteq> None"
    and "f args (V name) = Inr m"
    and "safe m" and "safe (if s \<le> 1 then s + m else s * m)"
  shows "fieldNode (FieldNode name al (Some args) selectionSet) T V parentName =
           Inr (if s \<le> 1 then s + m else s * m)"
  using assms
  by (auto simp: combine_def js_get_def js_combine_def call_fieldWeight_def number_def
      split: option.splits)

text \<open>
  The defect behind the list claims: under a list field whose name is no key of the
  table, a selected field that is no key of the table either is looked up under the list
  field's name, and the analyzer throws.
\<close>

lemma list_field_selection_throws:
  assumes "\<not> js_in (toLocaleLowerCase name) T"
    and "\<not> js_in name T"
    and "T parentName = Some p"
    and "fields p name = Some (WeightFunction f)"
    and "\<not> js_in (toLocaleLowerCase sub) T"
  shows "fieldNode (FieldNode name al arguments
             (Some (SelectionSetNode (Field (FieldNode sub al' arguments' selectionSet') # rest))))
           T V parentName = Inl TypeError"
  using assms by (auto simp: js_get_def js_in_def split: option.splits)

text \<open>
  The weight function of \<^verbatim>\<open>heroes\<close> is given \<^verbatim>\<open>variables['heroes']\<close>, never the entry of
  the variable \<^verbatim>\<open>$items\<close> its argument refers to.
\<close>

lemma heroes_weight_function_input:
  "documentNode heroesEpisodeQuery (weightFunctionTypeWeights reviewsFn heroesFn villainsFn charactersFn) V =
     (case heroesFn [ArgumentNode ''episode'' (EnumValue ''NEWHOPE''),
                     ArgumentNode ''first'' (Variable ''items'')] (V ''heroes'') of
        Inl e \<Rightarrow> Inl e
      | Inr m \<Rightarrow> (case number m of Inl e \<Rightarrow> Inl e | Inr k \<Rightarrow> number (1 + k)))"
  by (auto simp: leaf_def query_of_def js_in_def js_get_def inherited_def object_prototype_def
      toLocaleLowerCase_def lower_char_def js_combine_def call_fieldWeight_def
      weightFunctionTypeWeights_def heroesEpisodeQuery_def combine_def number_def
      safe_def MAX_SAFE_INTEGER_def
      split: sum.splits option.splits)

lemma heroes_ignores_items:
  "documentNode heroesEpisodeQuery (weightFunctionTypeWeights reviewsFn heroesFn villainsFn charactersFn)
     [''items'' \<mapsto> JNumber 7, ''first'' \<mapsto> JNumber 4] =
   documentNode heroesEpisodeQuery (weightFunctionTypeWeights reviewsFn heroesFn villainsFn charactersFn)
     [''items'' \<mapsto> JNumber 9, ''first'' \<mapsto> JNumber 4]"
  by (simp add: heroes_weight_function_input)

text \<open>
  The combination rule alone, applied to the nested friends query with the element type
  as context (leaf cost 0, inner bound 3, outer bound 5, object weight 1, root weight 1).
\<close>

lemma nested_lists_by_combine: "1 + combine (0 + combine (0 + combine 0 3) 5) 1 = 16"
  by (simp add: combine_def)

text \<open>
  A field whose name is a key of the table only after lower-casing: the weight is read
  under the name as written.
\<close>

lemma object_field_capital_name:
  assumes "js_in (toLocaleLowerCase name) T" and "\<not> js_in name T"
  shows "fieldNode (FieldNode name al arguments selectionSet) T V parentName = Inl TypeError"
  using assms by (auto simp: js_get_def js_in_def split: option.splits)

text \<open>
  Where the account stops: a field named like an inherited property, found by
  \<^verbatim>\<open>in\<close> through the prototype of the weight table.
\<close>

lemma constructor_query_reads_prototype:
  "documentNode constructorQuery
     (testTypeWeights reviewsFn searchFn humanFriendsFn droidFriendsFn) V = Inl Inherited"
  by (simp add: lookup_defs testTypeWeights_def constructorQuery_def)

section \<open>Facts about the serializer and the request handler\<close>

lemmas serializer_defs =
  initial_def throttledProcess_def processRequestResolver_call_def
  processRequestResolver_resume_def emit_def requestId_def number_string_def Let_def

text \<open>
  Two calls of one client with the same request id, entering while a third call of that
  client is in flight: when that call is answered, one \<^verbatim>\<open>emit\<close> starts the bucket
  calls of both.
\<close>

lemma same_id_calls_both_in_flight:
  assumes "userId a = u" and "userId b = u" and "userId c = u"
    and "requestId (timestamp b) (cost b) = requestId (timestamp c) (cost c)"
  shows "map_option inFlight (run [Request a, Request b, Request c, Answer a (Inr r)] initial)
           = Some [b, c]"
  using assms
  by (simp add: initial_def throttledProcess_def processRequestResolver_call_def
      processRequestResolver_resume_def emit_def Let_def)

text \<open>The one listener an event has, when request ids are distinct.\<close>

lemma filter_singleton:
  assumes "distinct xs" and "x \<in> set xs" and "Q x" and "\<forall>y \<in> set xs. Q y \<longrightarrow> y = x"
  shows "filter Q xs = [x]"
  using assms
proof (induction xs)
  case Nil
  then show ?case by simp
next
  case (Cons a xs)
  show ?case
  proof (cases "a = x")
    case True
    from Cons.prems(1) True have "x \<notin> set xs" by simp
    with Cons.prems(4) have "\<forall>y \<in> set xs. \<not> Q y" by auto
    then have "filter Q xs = []" by (simp add: filter_empty_conv)
    with True Cons.prems(3) show ?thesis by simp
  next
    case False
    from Cons.prems(4) False have na: "\<not> Q a" by auto
    from Cons.prems(1) have d: "distinct xs" by simp
    from Cons.prems(2) False have m: "x \<in> set xs" by auto
    from Cons.prems(4) have r: "\<forall>y \<in> set xs. Q y \<longrightarrow> y = x" by simp
    from Cons.IH[OF d m Cons.prems(3) r] na show ?thesis by simp
  qed
qed

text \<open>The transitions, case by case.\<close>

lemma throttledProcess_first:
  assumes "requestQueue s (userId c) = None"
  shows "throttledProcess c s =
           s\<lparr>requestQueue := (requestQueue s)(userId c \<mapsto> [rid c]), inFlight := inFlight s @ [c]\<rparr>"
  using assms by (simp add: throttledProcess_def processRequestResolver_call_def rid_def Let_def)

lemma throttledProcess_queued:
  assumes "requestQueue s (userId c) = Some q" and "q \<noteq> []"
  shows "throttledProcess c s =
           s\<lparr>requestQueue := (requestQueue s)(userId c \<mapsto> q @ [rid c]),
             requestEvents := requestEvents s @ [(rid c, c)]\<rparr>"
proof -
  from assms(2) have "length (q @ [rid c]) > 1" by (cases q) simp_all
  with assms(1) show ?thesis
    by (simp add: throttledProcess_def rid_def Let_def)
qed

lemma resume_last:
  assumes "requestQueue s (userId c) = Some [r]"
  shows "processRequestResolver_resume c (Inr resp) s =
           s\<lparr>inFlight := remove1 c (inFlight s),
             requestQueue := (requestQueue s)(userId c := None),
             settled := settled s @ [(c, Resolved resp)]\<rparr>"
  using assms by (simp add: processRequestResolver_resume_def Let_def)

lemma resume_next:
  assumes "requestQueue s (userId c) = Some (r # r' # q)"
    and "filter (\<lambda>l. fst l = r') (requestEvents s) = [(r', n)]"
  shows "processRequestResolver_resume c (Inr resp) s =
           s\<lparr>inFlight := remove1 c (inFlight s) @ [n],
             requestQueue := (requestQueue s)(userId c \<mapsto> r' # q),
             requestEvents := filter (\<lambda>l. fst l \<noteq> r') (requestEvents s),
             settled := settled s @ [(c, Resolved resp)]\<rparr>"
  using assms
  by (simp add: processRequestResolver_resume_def emit_def processRequestResolver_call_def Let_def)

text \<open>How the calls in flight and the waiting calls change with the pending calls.\<close>

lemma heads_first: "P u = [] \<Longrightarrow> heads (P(u := [c])) = insert c (heads P)"
  by (auto simp: heads_def split: if_splits)

lemma heads_queued: "P u \<noteq> [] \<Longrightarrow> heads (P(u := P u @ [c])) = heads P"
  by (auto simp: heads_def split: if_splits)

lemma waiting_first: "P u = [] \<Longrightarrow> waiting (P(u := [c])) = waiting P"
proof -
  assume e: "P u = []"
  have "\<And>v. set (tl ((P(u := [c])) v)) = set (tl (P v))"
    using e by simp
  then show ?thesis by (simp add: waiting_def)
qed

lemma waiting_queued: "P u \<noteq> [] \<Longrightarrow> waiting (P(u := P u @ [c])) = insert (rid c, c) (waiting P)"
  by (auto simp: waiting_def split: if_splits)


lemma heads_last:
  assumes "P u = [c]" and "\<forall>v. \<forall>d \<in> set (P v). userId d = v"
  shows "heads (P(u := [])) = heads P - {c}"
proof -
  have other: "\<And>v. v \<noteq> u \<Longrightarrow> P v \<noteq> [] \<Longrightarrow> hd (P v) \<noteq> c"
  proof
    fix v assume v: "v \<noteq> u" "P v \<noteq> []" "hd (P v) = c"
    then have "c \<in> set (P v)" by (metis hd_in_set)
    with assms(2) have "userId c = v" by blast
    moreover from assms have "userId c = u" by simp
    ultimately show False using v(1) by simp
  qed
  show ?thesis
  proof (rule set_eqI)
    fix d
    show "d \<in> heads (P(u := [])) \<longleftrightarrow> d \<in> heads P - {c}"
    proof
      assume "d \<in> heads (P(u := []))"
      then obtain v where v: "v \<noteq> u" "P v \<noteq> []" "d = hd (P v)"
        by (auto simp: heads_def split: if_splits)
      with other[OF v(1,2)] show "d \<in> heads P - {c}"
        by (auto simp: heads_def)
    next
      assume "d \<in> heads P - {c}"
      then obtain v where v: "P v \<noteq> []" "d = hd (P v)" "d \<noteq> c"
        by (auto simp: heads_def)
      with assms(1) have "v \<noteq> u" by auto
      with v show "d \<in> heads (P(u := []))"
        by (auto simp: heads_def)
    qed
  qed
qed

lemma heads_next:
  assumes "P u = c # n # rest" and "\<forall>v. \<forall>d \<in> set (P v). userId d = v"
  shows "heads (P(u := n # rest)) = insert n (heads P - {c})"
proof -
  have other: "\<And>v. v \<noteq> u \<Longrightarrow> P v \<noteq> [] \<Longrightarrow> hd (P v) \<noteq> c"
  proof
    fix v assume v: "v \<noteq> u" "P v \<noteq> []" "hd (P v) = c"
    then have "c \<in> set (P v)" by (metis hd_in_set)
    with assms(2) have "userId c = v" by blast
    moreover from assms have "userId c = u" by simp
    ultimately show False using v(1) by simp
  qed
  show ?thesis
  proof (rule set_eqI)
    fix d
    show "d \<in> heads (P(u := n # rest)) \<longleftrightarrow> d \<in> insert n (heads P - {c})"
    proof
      assume "d \<in> heads (P(u := n # rest))"
      then consider "d = n" | v where "v \<noteq> u" "P v \<noteq> []" "d = hd (P v)"
        by (auto simp: heads_def split: if_splits)
      then show "d \<in> insert n (heads P - {c})"
      proof cases
        case 1
        then show ?thesis by simp
      next
        case 2
        with other[OF 2(1,2)] show ?thesis by (auto simp: heads_def)
      qed
    next
      assume "d \<in> insert n (heads P - {c})"
      then consider "d = n" | v where "P v \<noteq> []" "d = hd (P v)" "d \<noteq> c"
        by (auto simp: heads_def)
      then show "d \<in> heads (P(u := n # rest))"
      proof cases
        case 1
        then show ?thesis by (auto simp: heads_def)
      next
        case 2
        with assms(1) have "v \<noteq> u" by auto
        with 2 show ?thesis by (auto simp: heads_def)
      qed
    qed
  qed
qed

lemma waiting_last: "P u = [c] \<Longrightarrow> waiting (P(u := [])) = waiting P"
proof -
  assume e: "P u = [c]"
  have "\<And>v. set (tl ((P(u := [])) v)) = set (tl (P v))"
    using e by simp
  then show ?thesis by (simp add: waiting_def)
qed

lemma waiting_next:
  assumes "P u = c # n # rest" and "\<forall>v. \<forall>d \<in> set (P v). userId d = v"
    and "distinct (P u)"
  shows "waiting (P(u := n # rest)) = waiting P - {(rid n, n)}"
proof -
  from assms(1,2) have un: "userId n = u" by simp
  from assms(1,3) have nrest: "n \<notin> set rest" by simp
  have other: "\<And>v. v \<noteq> u \<Longrightarrow> n \<notin> set (tl (P v))"
  proof
    fix v assume v: "v \<noteq> u" "n \<in> set (tl (P v))"
    then have "n \<in> set (P v)" by (metis list.set_sel(2) tl_Nil empty_iff empty_set)
    with assms(2) have "userId n = v" by blast
    with un v(1) show False by simp
  qed
  show ?thesis
  proof (rule set_eqI)
    fix y
    show "y \<in> waiting (P(u := n # rest)) \<longleftrightarrow> y \<in> waiting P - {(rid n, n)}"
    proof
      assume "y \<in> waiting (P(u := n # rest))"
      then obtain d v where d: "y = (rid d, d)" "d \<in> set (tl ((P(u := n # rest)) v))"
        by (auto simp: waiting_def)
      show "y \<in> waiting P - {(rid n, n)}"
      proof (cases "v = u")
        case True
        with d(2) have "d \<in> set rest" by simp
        with assms(1) nrest d(1) show ?thesis
          by (auto simp: waiting_def intro!: exI[of _ u])
      next
        case False
        with d(2) have "d \<in> set (tl (P v))" by simp
        with other[OF False] d(1) show ?thesis
          by (auto simp: waiting_def)
      qed
    next
      assume "y \<in> waiting P - {(rid n, n)}"
      then obtain d v where d: "y = (rid d, d)" "d \<in> set (tl (P v))" "d \<noteq> n"
        by (auto simp: waiting_def)
      show "y \<in> waiting (P(u := n # rest))"
      proof (cases "v = u")
        case True
        with d assms(1) have "d \<in> set rest" by simp
        with d(1) show ?thesis
          by (auto simp: waiting_def intro!: exI[of _ u])
      next
        case False
        with d show ?thesis
          by (auto simp: waiting_def intro!: exI[of _ v])
      qed
    qed
  qed
qed


text \<open>Both kinds of turn keep the invariant.\<close>

lemma serializes_request:
  assumes inv: "serializes s P"
    and fresh: "\<forall>v. \<forall>d \<in> set (P v). rid d \<noteq> rid c"
  shows "serializes (throttledProcess c s) (P(userId c := P (userId c) @ [c]))"
proof -
  let ?u = "userId c"
  from inv have Q: "\<forall>v. requestQueue s v = (if P v = [] then None else Some (map rid (P v)))"
    and U: "\<forall>v. \<forall>d \<in> set (P v). userId d = v"
    and I: "\<forall>v v'. \<forall>d \<in> set (P v). \<forall>d' \<in> set (P v'). rid d = rid d' \<longrightarrow> d = d'"
    and D: "\<forall>v. distinct (P v)"
    and F: "set (inFlight s) = heads P" and DF: "distinct (inFlight s)"
    and E: "set (requestEvents s) = waiting P" and DE: "distinct (requestEvents s)"
    by (simp_all add: serializes_def)
  from fresh have new: "\<And>v. c \<notin> set (P v)" by blast
  have U': "\<forall>v. \<forall>d \<in> set ((P(?u := P ?u @ [c])) v). userId d = v"
    using U by auto
  have I': "\<forall>v v'. \<forall>d \<in> set ((P(?u := P ?u @ [c])) v).
              \<forall>d' \<in> set ((P(?u := P ?u @ [c])) v'). rid d = rid d' \<longrightarrow> d = d'"
  proof (intro allI ballI impI)
    fix v v' d d'
    assume d: "d \<in> set ((P(?u := P ?u @ [c])) v)" and d': "d' \<in> set ((P(?u := P ?u @ [c])) v')"
      and eq: "rid d = rid d'"
    from d have dc: "d = c \<or> d \<in> set (P v)" by (auto split: if_splits)
    from d' have dc': "d' = c \<or> d' \<in> set (P v')" by (auto split: if_splits)
    from dc dc' eq fresh I show "d = d'" by metis
  qed
  have D': "\<forall>v. distinct ((P(?u := P ?u @ [c])) v)"
    using D new by auto
  show ?thesis
  proof (cases "P ?u = []")
    case True
    with Q have "requestQueue s ?u = None" by simp
    from throttledProcess_first[OF this]
    have s': "throttledProcess c s =
        s\<lparr>requestQueue := (requestQueue s)(?u \<mapsto> [rid c]), inFlight := inFlight s @ [c]\<rparr>" .
    have P': "P(?u := P ?u @ [c]) = P(?u := [c])" using True by simp
    have Q': "\<forall>v. requestQueue (throttledProcess c s) v =
        (if (P(?u := [c])) v = [] then None else Some (map rid ((P(?u := [c])) v)))"
      using Q by (simp add: s')
    have "c \<notin> heads P"
    proof
      assume "c \<in> heads P"
      then obtain v where "P v \<noteq> []" "c = hd (P v)" by (auto simp: heads_def)
      then have "c \<in> set (P v)" by (metis hd_in_set)
      with new show False by blast
    qed
    with F DF have F': "set (inFlight (throttledProcess c s)) = heads (P(?u := [c]))"
      and DF': "distinct (inFlight (throttledProcess c s))"
      by (simp_all add: s' heads_first[of P ?u c, OF True])
    from E DE have E': "set (requestEvents (throttledProcess c s)) = waiting (P(?u := [c]))"
      and DE': "distinct (requestEvents (throttledProcess c s))"
      by (simp_all add: s' waiting_first[of P ?u c, OF True])
    from Q' U' I' D' F' DF' E' DE' show ?thesis
      unfolding serializes_def P' by blast
  next
    case False
    with Q have "requestQueue s ?u = Some (map rid (P ?u))" by simp
    from throttledProcess_queued[OF this] False
    have s': "throttledProcess c s =
        s\<lparr>requestQueue := (requestQueue s)(?u \<mapsto> map rid (P ?u) @ [rid c]),
          requestEvents := requestEvents s @ [(rid c, c)]\<rparr>" by simp
    have Q': "\<forall>v. requestQueue (throttledProcess c s) v =
        (if (P(?u := P ?u @ [c])) v = [] then None
         else Some (map rid ((P(?u := P ?u @ [c])) v)))"
      using Q by (simp add: s')
    have "(rid c, c) \<notin> waiting P"
    proof
      assume "(rid c, c) \<in> waiting P"
      then obtain v where "c \<in> set (tl (P v))" by (auto simp: waiting_def)
      then have "c \<in> set (P v)" by (metis list.set_sel(2) tl_Nil empty_iff empty_set)
      with new show False by blast
    qed
    with E DE have E': "set (requestEvents (throttledProcess c s)) = waiting (P(?u := P ?u @ [c]))"
      and DE': "distinct (requestEvents (throttledProcess c s))"
      by (simp_all add: s' waiting_queued[of P ?u c, OF False])
    from F DF have F': "set (inFlight (throttledProcess c s)) = heads (P(?u := P ?u @ [c]))"
      and DF': "distinct (inFlight (throttledProcess c s))"
      by (simp_all add: s' heads_queued[of P ?u c, OF False])
    from Q' U' I' D' F' DF' E' DE' show ?thesis
      unfolding serializes_def by blast
  qed
qed

lemma throttledProcess_settled: "settled (throttledProcess c s) = settled s"
  by (simp add: throttledProcess_def processRequestResolver_call_def Let_def)

lemma serializes_in_flight:
  assumes inv: "serializes s P" and c: "c \<in> set (inFlight s)"
  shows "\<exists>rest. P (userId c) = c # rest"
proof -
  from inv c have "c \<in> heads P" by (simp add: serializes_def)
  then obtain v where v: "P v \<noteq> []" "c = hd (P v)" by (auto simp: heads_def)
  then have "c \<in> set (P v)" by (metis hd_in_set)
  with inv have "userId c = v" by (auto simp: serializes_def)
  with v show ?thesis by (cases "P v") auto
qed

lemma serializes_answer:
  assumes inv: "serializes s P" and c: "c \<in> set (inFlight s)"
  shows "serializes (processRequestResolver_resume c (Inr resp) s)
           (P(userId c := tl (P (userId c))))
         \<and> settled (processRequestResolver_resume c (Inr resp) s) = settled s @ [(c, Resolved resp)]"
proof -
  let ?u = "userId c"
  let ?s' = "processRequestResolver_resume c (Inr resp) s"
  from inv have Q: "\<forall>v. requestQueue s v = (if P v = [] then None else Some (map rid (P v)))"
    and U: "\<forall>v. \<forall>d \<in> set (P v). userId d = v"
    and I: "\<forall>v v'. \<forall>d \<in> set (P v). \<forall>d' \<in> set (P v'). rid d = rid d' \<longrightarrow> d = d'"
    and D: "\<forall>v. distinct (P v)"
    and F: "set (inFlight s) = heads P" and DF: "distinct (inFlight s)"
    and E: "set (requestEvents s) = waiting P" and DE: "distinct (requestEvents s)"
    by (simp_all add: serializes_def)
  from serializes_in_flight[OF inv c] obtain rest where Pu: "P ?u = c # rest" by blast
  have sub: "\<And>v. set ((P(?u := tl (P ?u))) v) \<subseteq> set (P v)"
    using Pu by auto
  have U': "\<forall>v. \<forall>d \<in> set ((P(?u := tl (P ?u))) v). userId d = v"
    using U sub by blast
  have I': "\<forall>v v'. \<forall>d \<in> set ((P(?u := tl (P ?u))) v).
              \<forall>d' \<in> set ((P(?u := tl (P ?u))) v'). rid d = rid d' \<longrightarrow> d = d'"
    using I sub by blast
  have D': "\<forall>v. distinct ((P(?u := tl (P ?u))) v)"
    using D by (auto simp: distinct_tl)
  show ?thesis
  proof (cases rest)
    case Nil
    with Pu have Pc: "P ?u = [c]" by simp
    with Q have "requestQueue s ?u = Some [rid c]" by simp
    from resume_last[OF this]
    have s': "?s' = s\<lparr>inFlight := remove1 c (inFlight s),
        requestQueue := (requestQueue s)(?u := None),
        settled := settled s @ [(c, Resolved resp)]\<rparr>" .
    have P': "P(?u := tl (P ?u)) = P(?u := [])" using Pc by simp
    have Q': "\<forall>v. requestQueue ?s' v =
        (if (P(?u := [])) v = [] then None else Some (map rid ((P(?u := [])) v)))"
      using Q by (simp add: s')
    from F DF have F': "set (inFlight ?s') = heads (P(?u := []))"
      and DF': "distinct (inFlight ?s')"
      by (simp_all add: s' heads_last[of P ?u c, OF Pc U])
    from E DE have E': "set (requestEvents ?s') = waiting (P(?u := []))"
      and DE': "distinct (requestEvents ?s')"
      by (simp_all add: s' waiting_last[of P ?u c, OF Pc])
    from Q' U' I' D' F' DF' E' DE' have "serializes ?s' (P(?u := tl (P ?u)))"
      unfolding serializes_def P' by blast
    then show ?thesis by (simp add: s')
  next
    case (Cons n rest')
    with Pu have Pc: "P ?u = c # n # rest'" by simp
    with Q have q: "requestQueue s ?u = Some (rid c # rid n # map rid rest')" by simp
    have n_waits: "(rid n, n) \<in> set (requestEvents s)"
      using E Pc by (auto simp: waiting_def intro!: exI[of _ ?u])
    have only_n: "\<forall>y \<in> set (requestEvents s). fst y = rid n \<longrightarrow> y = (rid n, n)"
    proof (intro ballI impI)
      fix y assume "y \<in> set (requestEvents s)" and fy: "fst y = rid n"
      with E obtain d v where d: "y = (rid d, d)" "d \<in> set (tl (P v))"
        by (auto simp: waiting_def)
      then have "d \<in> set (P v)" by (metis list.set_sel(2) tl_Nil empty_iff empty_set)
      moreover from Pc have "n \<in> set (P ?u)" by simp
      ultimately have "d = n" using I fy d(1) by (metis fst_conv)
      with d(1) show "y = (rid n, n)" by simp
    qed
    have woken: "filter (\<lambda>l. fst l = rid n) (requestEvents s) = [(rid n, n)]"
      by (rule filter_singleton[OF DE n_waits _ only_n]) simp
    from resume_next[OF q woken]
    have s': "?s' = s\<lparr>inFlight := remove1 c (inFlight s) @ [n],
        requestQueue := (requestQueue s)(?u \<mapsto> rid n # map rid rest'),
        requestEvents := filter (\<lambda>l. fst l \<noteq> rid n) (requestEvents s),
        settled := settled s @ [(c, Resolved resp)]\<rparr>" .
    have P': "P(?u := tl (P ?u)) = P(?u := n # rest')" using Pc by simp
    have Q': "\<forall>v. requestQueue ?s' v =
        (if (P(?u := n # rest')) v = [] then None else Some (map rid ((P(?u := n # rest')) v)))"
      using Q by (simp add: s')
    have n_not_head: "n \<notin> heads P"
    proof
      assume "n \<in> heads P"
      then obtain v where v: "P v \<noteq> []" "n = hd (P v)" by (auto simp: heads_def)
      then have "n \<in> set (P v)" by (metis hd_in_set)
      with U have "userId n = v" by blast
      moreover from U Pc have "userId n = ?u" by simp
      ultimately have "n = c" using v(2) Pc by simp
      with D Pc show False by (metis distinct.simps(2) list.set_intros(1))
    qed
    from F DF n_not_head have F': "set (inFlight ?s') = heads (P(?u := n # rest'))"
      and DF': "distinct (inFlight ?s')"
      by (auto simp: s' heads_next[of P ?u c n rest', OF Pc U])
    have "set (filter (\<lambda>l. fst l \<noteq> rid n) (requestEvents s)) = waiting P - {(rid n, n)}"
      using E only_n by auto
    with DE D have E': "set (requestEvents ?s') = waiting (P(?u := n # rest'))"
      and DE': "distinct (requestEvents ?s')"
      by (simp_all add: s' waiting_next[of P ?u c n rest', OF Pc U])
    from Q' U' I' D' F' DF' E' DE' have "serializes ?s' (P(?u := tl (P ?u)))"
      unfolding serializes_def P' by blast
    then show ?thesis by (simp add: s')
  qed
qed


lemma of_client_snoc:
  "of_client u (cs @ [c]) = of_client u cs @ (if userId c = u then [c] else [])"
  by (simp add: of_client_def)

lemma fifo_initial: "fifo initial (\<lambda>u. []) []"
  by (simp add: fifo_def serializes_def initial_def heads_def waiting_def of_client_def)

lemma fifo_request:
  assumes inv: "fifo s P A" and fresh: "rid c \<notin> rid ` set A"
  shows "fifo (throttledProcess c s) (P(userId c := P (userId c) @ [c])) (A @ [c])"
proof -
  from inv have ser: "serializes s P"
    and hist: "\<forall>u. of_client u A = of_client u (map fst (settled s)) @ P u"
    by (simp_all add: fifo_def)
  have "\<forall>v. \<forall>d \<in> set (P v). rid d \<noteq> rid c"
  proof (intro allI ballI)
    fix v d assume "d \<in> set (P v)"
    with hist have "d \<in> set (of_client v A)" by simp
    then have "d \<in> set A" by (simp add: of_client_def)
    then have "rid d \<in> rid ` set A" by (rule imageI)
    with fresh show "rid d \<noteq> rid c" by metis
  qed
  from serializes_request[OF ser this]
  have "serializes (throttledProcess c s) (P(userId c := P (userId c) @ [c]))" .
  moreover have "\<forall>u. of_client u (A @ [c]) =
      of_client u (map fst (settled (throttledProcess c s))) @ (P(userId c := P (userId c) @ [c])) u"
    using hist by (simp add: of_client_snoc throttledProcess_settled)
  ultimately show ?thesis by (simp add: fifo_def)
qed

lemma fifo_answer:
  assumes inv: "fifo s P A" and c: "c \<in> set (inFlight s)"
  shows "fifo (processRequestResolver_resume c (Inr resp) s) (P(userId c := tl (P (userId c)))) A"
proof -
  from inv have ser: "serializes s P"
    and hist: "\<forall>u. of_client u A = of_client u (map fst (settled s)) @ P u"
    by (simp_all add: fifo_def)
  from serializes_in_flight[OF ser c] obtain rest where Pu: "P (userId c) = c # rest" by blast
  from serializes_answer[OF ser c, of resp]
  have ser': "serializes (processRequestResolver_resume c (Inr resp) s)
      (P(userId c := tl (P (userId c))))"
    and log: "settled (processRequestResolver_resume c (Inr resp) s) = settled s @ [(c, Resolved resp)]"
    by simp_all
  have "\<forall>u. of_client u A =
      of_client u (map fst (settled (processRequestResolver_resume c (Inr resp) s)))
      @ (P(userId c := tl (P (userId c)))) u"
    using hist Pu by (simp add: log of_client_snoc)
  with ser' show ?thesis by (simp add: fifo_def)
qed

lemma run_Answer:
  assumes "run (Answer c a # ts) s0 = Some s"
  shows "c \<in> set (inFlight s0) \<and> run ts (processRequestResolver_resume c a s0) = Some s"
proof (cases "c \<in> set (inFlight s0)")
  case True
  with assms show ?thesis by simp
next
  case False
  with assms show ?thesis by simp
qed

lemma run_fifo:
  assumes "fifo s0 P0 A0" and "run ts s0 = Some s" and "admitted_only ts"
    and "distinct (map rid (A0 @ requests ts))"
  shows "\<exists>P. fifo s P (A0 @ requests ts)"
  using assms
proof (induction ts arbitrary: s0 P0 A0 rule: requests.induct)
  case 1
  then have "fifo s P0 (A0 @ requests [])" by simp
  then show ?case by (rule exI[of _ P0])
next
  case (2 c ts)
  from "2.prems"(4) have "rid c \<notin> set (map rid A0)" by simp
  then have fresh: "rid c \<notin> rid ` set A0" by simp
  from fifo_request[OF "2.prems"(1) fresh]
  have inv: "fifo (throttledProcess c s0) (P0(userId c := P0 (userId c) @ [c])) (A0 @ [c])" .
  from "2.prems"(2) have run: "run ts (throttledProcess c s0) = Some s" by simp
  from "2.prems"(3) have adm: "admitted_only ts" by simp
  from "2.prems"(4) have dist: "distinct (map rid ((A0 @ [c]) @ requests ts))" by simp
  from "2.IH"[OF inv run adm dist] show ?case by simp
next
  case (3 c a ts)
  from "3.prems"(3) obtain resp where a: "a = Inr resp" and adm: "admitted_only ts"
    by (cases a) simp_all
  from run_Answer[OF "3.prems"(2)] a have c: "c \<in> set (inFlight s0)"
    and run: "run ts (processRequestResolver_resume c (Inr resp) s0) = Some s"
    by simp_all
  from fifo_answer[OF "3.prems"(1) c]
  have inv: "fifo (processRequestResolver_resume c (Inr resp) s0)
      (P0(userId c := tl (P0 (userId c)))) A0" .
  from "3.prems"(4) have dist: "distinct (map rid (A0 @ requests ts))" by simp
  from "3.IH"[OF inv run adm dist] show ?case by simp
qed

lemma serializes_one_per_client:
  assumes "serializes s P"
  shows "distinct (map userId (inFlight s))"
proof -
  have "inj_on userId (set (inFlight s))"
  proof (rule inj_onI)
    fix c d assume c: "c \<in> set (inFlight s)" and d: "d \<in> set (inFlight s)"
      and eq: "userId c = userId d"
    from serializes_in_flight[OF assms c] obtain rc where pc: "P (userId c) = c # rc" by blast
    from serializes_in_flight[OF assms d] obtain rd where pd: "P (userId d) = d # rd" by blast
    from pc have "P (userId d) = c # rc" unfolding eq .
    with pd show "c = d" by simp
  qed
  moreover from assms have "distinct (inFlight s)" by (simp add: serializes_def)
  ultimately show ?thesis by (simp add: distinct_map)
qed

text \<open>
  With distinct request ids and no failing bucket call, after any sequence of turns: no
  two calls in flight are of one client, and for each client the calls settled so far,
  in the order they settled, followed by the calls still pending, whose ids are its
  queue, are its calls in arrival order.
\<close>

lemma serializer_fifo:
  assumes "run ts initial = Some s" and "admitted_only ts" and "distinct (map rid (requests ts))"
  shows "distinct (map userId (inFlight s))
         \<and> (\<forall>u. \<exists>pending.
               of_client u (requests ts) = of_client u (map fst (settled s)) @ pending
               \<and> requestQueue s u = (if pending = [] then None else Some (map rid pending)))"
proof -
  from assms(3) have "distinct (map rid ([] @ requests ts))" by simp
  from run_fifo[OF fifo_initial assms(1,2) this]
  obtain P where "fifo s P ([] @ requests ts)" by blast
  then have P: "fifo s P (requests ts)" by simp
  from P have ser: "serializes s P"
    and hist: "\<forall>u. of_client u (requests ts) = of_client u (map fst (settled s)) @ P u"
    by (simp_all add: fifo_def)
  from ser have queue: "\<forall>u. requestQueue s u = (if P u = [] then None else Some (map rid (P u)))"
    by (simp add: serializes_def)
  have "\<forall>u. \<exists>pending.
          of_client u (requests ts) = of_client u (map fst (settled s)) @ pending
          \<and> requestQueue s u = (if pending = [] then None else Some (map rid pending))"
  proof
    fix u
    from hist queue
    have "of_client u (requests ts) = of_client u (map fst (settled s)) @ P u
          \<and> requestQueue s u = (if P u = [] then None else Some (map rid (P u)))"
      by simp
    then show "\<exists>pending.
          of_client u (requests ts) = of_client u (map fst (settled s)) @ pending
          \<and> requestQueue s u = (if pending = [] then None else Some (map rid pending))"
      by (rule exI)
  qed
  with serializes_one_per_client[OF ser] show ?thesis by (rule conjI)
qed

text \<open>
  A sequence of turns the ordering property applies to: two calls of one client with
  distinct request ids, both admitted.
\<close>

lemma serializer_fifo_example:
  "admitted_only [Request callA, Request callB, Answer callA admitted, Answer callB admitted]
   \<and> distinct (map rid
         (requests [Request callA, Request callB, Answer callA admitted, Answer callB admitted]))
   \<and> map_option (\<lambda>s. map fst (settled s))
         (run [Request callA, Request callB, Answer callA admitted, Answer callB admitted] initial)
       = Some [callA, callB]"
  by (simp add: serializer_defs rid_def digits.simps callA_def callB_def admitted_def)

text \<open>
  A client with a non-empty queue and no call in flight stays so: each further request
  of that client only queues behind, no bucket call is started and nothing is settled.
\<close>

lemma blocked_client_stays_blocked:
  assumes "inFlight s = []" and "requestQueue s u = Some q" and "q \<noteq> []"
    and "\<forall>c \<in> set cs. userId c = u"
  shows "\<exists>s'. run (map Request cs) s = Some s' \<and> inFlight s' = [] \<and> settled s' = settled s
           \<and> (\<exists>q'. requestQueue s' u = Some (q @ q'))"
  using assms
proof (induction cs arbitrary: s q)
  case Nil
  then show ?case by simp
next
  case (Cons c cs)
  let ?s1 = "throttledProcess c s"
  from Cons.prems have u: "userId c = u" by simp
  let ?q1 = "q @ [requestId (timestamp c) (cost c)]"
  from Cons.prems(2,3) u have len: "length ?q1 > 1"
    by (cases q) simp_all
  from Cons.prems(1,2) u len have s1: "inFlight ?s1 = []" "requestQueue ?s1 u = Some ?q1"
      "settled ?s1 = settled s"
    by (simp_all add: throttledProcess_def Let_def)
  from Cons.prems(4) have rest: "\<forall>c \<in> set cs. userId c = u" by simp
  from Cons.IH[OF s1(1) s1(2) _ rest] s1(3) show ?case by auto
qed

text \<open>
  A rejection with dark mode off: status 429 is sent and the headers are left as they
  were. With dark mode on: \<^verbatim>\<open>next()\<close> is called and the record carries
  \<^verbatim>\<open>success = false\<close>.
\<close>

lemma handler_rejection:
  assumes "\<not> success r"
  shows "\<exists>res'. expressGraphQLRateLimiter_handler False ts c (Inr r) res = Sent res'
           \<and> statusCode res' = Some 429 \<and> headers res' = headers res"
  using assms by (simp add: expressGraphQLRateLimiter_handler_def Let_def)

lemma handler_dark_rejection:
  assumes "\<not> success r"
  shows "\<exists>res'. expressGraphQLRateLimiter_handler True ts c (Inr r) res = Next res'
           \<and> map_option gate_success (locals res' ''graphqlGate'') = Some False
           \<and> statusCode res' = statusCode res"
  using assms by (simp add: expressGraphQLRateLimiter_handler_def Let_def)

section \<open>The claims\<close>

text \<open>
  C1. For a bounded-list field the contribution is \<open>s + m\<close> when \<open>s \<le> 1\<close> and
  \<open>s * m\<close> otherwise, with \<open>s\<close> the cost of the selection set under the list's
  element type. On \<^verbatim>\<open>reviews(episode: EMPIRE, first: 3) { stars, commentary }\<close> of the
  repository's test the analyzer does not get that far: it costs the selection set
  under the name \<^verbatim>\<open>reviews\<close>, which is no key of the table, and throws. Under the
  element type \<^verbatim>\<open>review\<close> the same selection set costs 0.
\<close>

theorem reviews_list_field_throws:
  "fieldNode reviewsField (testTypeWeights reviewsFn searchFn humanFriendsFn droidFriendsFn)
     variables ''query'' = Inl TypeError
   \<and> selectionSetNode (SelectionSetNode [leaf ''stars'', leaf ''commentary''])
       (testTypeWeights reviewsFn searchFn humanFriendsFn droidFriendsFn) variables ''review''
     = Inr 0"
  by (simp add: lookup_defs testTypeWeights_def reviewsField_def)

text \<open>
  C2. The nested friends query of the test is said to cost 22. Whatever the weight
  functions of the table are, the analyzer throws on it: the selection set of
  \<^verbatim>\<open>friends\<close> is costed under the name \<^verbatim>\<open>friends\<close>.
\<close>

theorem nested_lists_query_throws:
  "documentNode nestedListsQuery
     (testTypeWeights reviewsFn searchFn humanFriendsFn droidFriendsFn) variables
   = Inl TypeError"
  by (simp add: lookup_defs testTypeWeights_def nestedListsQuery_def)

text \<open>
  C3. With variables \<^verbatim>\<open>{ items: 7, first: 4 }\<close> the heroes query is said to cost 8, the
  slicing argument being resolved to \<^verbatim>\<open>variables['items']\<close>. Whatever the weight
  functions are, the analyzer throws on it.
\<close>

theorem heroes_query_throws:
  "documentNode heroesQuery
     (weightFunctionTypeWeights reviewsFn heroesFn villainsFn charactersFn)
     [''items'' \<mapsto> JNumber 7, ''first'' \<mapsto> JNumber 4]
   = Inl TypeError"
  by (simp add: lookup_defs weightFunctionTypeWeights_def heroesQuery_def)

text \<open>
  C4, as amended. For a field whose name, as written, is a key of the weight table
  (and so is its lower-cased name), the contribution is \<open>s + w\<close> when \<open>s \<le> 1\<close> and
  \<open>s * w\<close> otherwise, where \<open>w\<close> is the weight of that entry and \<open>s\<close> the cost of
  the field's selection set with the field's name as context (0 without a selection
  set), provided \<open>w\<close> and that sum or product are safe integers; a selection set of
  cost 0 then costs exactly \<open>w\<close>.
\<close>

theorem object_field_contribution:
  assumes "js_in (toLocaleLowerCase name) T"
    and "T name = Some t"
    and "(case selectionSet of None \<Rightarrow> Inr 0 | Some ss \<Rightarrow> selectionSetNode ss T V name) = Inr s"
    and "safe (weight t)"
    and "safe (if s \<le> 1 then s + weight t else s * weight t)"
  shows "fieldNode (FieldNode name al arguments selectionSet) T V parentName
           = Inr (if s \<le> 1 then s + weight t else s * weight t)
         \<and> (s = 0 \<longrightarrow>
              fieldNode (FieldNode name al arguments selectionSet) T V parentName = Inr (weight t))"
  using assms by (simp add: combine_def js_get_def js_combine_def number_def)

theorem object_field_contribution_witness:
  "js_in (toLocaleLowerCase ''scalars'') (testTypeWeights returns3 returns3 returns3 returns3)
   \<and> map_option weight (testTypeWeights returns3 returns3 returns3 returns3 ''scalars'') = Some 1
   \<and> safe 1
   \<and> fieldNode scalarsField (testTypeWeights returns3 returns3 returns3 returns3)
        Map.empty ''query'' = Inr 1"
proof -
  let ?T = "testTypeWeights returns3 returns3 returns3 returns3"
  let ?t = "TypeWeight 1 (map_of [(''num'', Number 0), (''id'', Number 0), (''float'', Number 0),
          (''bool'', Number 0), (''string'', Number 0)])"
  have key: "js_in (toLocaleLowerCase ''scalars'') ?T"
    by (simp add: lookup_defs testTypeWeights_def)
  have entry: "?T ''scalars'' = Some ?t"
    by (simp add: lookup_defs testTypeWeights_def)
  have sel: "(case Some (SelectionSetNode [leaf ''num'']) of
                None \<Rightarrow> Inr 0
              | Some ss \<Rightarrow> selectionSetNode ss ?T Map.empty ''scalars'') = Inr 0"
    by (simp add: lookup_defs testTypeWeights_def)
  have w: "safe (weight ?t)"
    by (simp add: safe_def MAX_SAFE_INTEGER_def)
  have r: "safe (if (0::int) \<le> 1 then 0 + weight ?t else 0 * weight ?t)"
    by (simp add: safe_def MAX_SAFE_INTEGER_def)
  from object_field_contribution[OF key entry sel w r, of None "Some []" "''query''"]
  have "fieldNode scalarsField ?T Map.empty ''query'' = Inr 1"
    by (simp add: scalarsField_def)
  with key entry show ?thesis by (simp add: safe_def MAX_SAFE_INTEGER_def)
qed

text \<open>
  C4 as stated fails three times. With a scalar weight of 1, the pure leaf selection
  \<^verbatim>\<open>scalars { num }\<close> costs 2 and not the weight 1 of \<^verbatim>\<open>scalars\<close>. The field name
  \<^verbatim>\<open>Scalars\<close>, whose lower-cased name is a key of the table, makes the analyzer throw.
  And for \<^verbatim>\<open>big { a b c }\<close>, with selection cost 3 and weight \<open>2\<^sup>5\<^sup>3 - 1\<close>, the
  product the claim names is no double, so it is not what the analyzer returns.
\<close>

theorem object_field_contribution_counterexample:
  "map_option weight (scalarOneTypeWeights ''scalars'') = Some 1
   \<and> fieldNode scalarsField scalarOneTypeWeights Map.empty ''query'' = Inr 2
   \<and> js_in (toLocaleLowerCase ''Scalars'') scalarOneTypeWeights
   \<and> fieldNode capitalScalarsField scalarOneTypeWeights Map.empty ''query'' = Inl TypeError
   \<and> js_in (toLocaleLowerCase ''big'') bigTypeWeights
   \<and> map_option weight (bigTypeWeights ''big'') = Some 9007199254740991
   \<and> selectionSetNode (SelectionSetNode [leaf ''a'', leaf ''b'', leaf ''c''])
        bigTypeWeights Map.empty ''big'' = Inr 3
   \<and> \<not> is_double (3 * 9007199254740991)
   \<and> fieldNode bigField bigTypeWeights Map.empty ''query'' = Inl Unsafe"
proof -
  have small: "map_option weight (scalarOneTypeWeights ''scalars'') = Some 1
      \<and> fieldNode scalarsField scalarOneTypeWeights Map.empty ''query'' = Inr 2
      \<and> js_in (toLocaleLowerCase ''Scalars'') scalarOneTypeWeights
      \<and> fieldNode capitalScalarsField scalarOneTypeWeights Map.empty ''query'' = Inl TypeError"
    by (simp add: lookup_defs scalarOneTypeWeights_def scalarsField_def capitalScalarsField_def
        combine_def)
  have big: "js_in (toLocaleLowerCase ''big'') bigTypeWeights
      \<and> map_option weight (bigTypeWeights ''big'') = Some 9007199254740991
      \<and> selectionSetNode (SelectionSetNode [leaf ''a'', leaf ''b'', leaf ''c''])
           bigTypeWeights Map.empty ''big'' = Inr 3
      \<and> fieldNode bigField bigTypeWeights Map.empty ''query'' = Inl Unsafe"
    by (simp add: lookup_defs bigTypeWeights_def bigField_def combine_def)
  have "\<not> is_double (3 * 9007199254740991)"
    by (rule odd_large_not_double) simp_all
  with small big show ?thesis by simp
qed




text \<open>
  C6. Calls of one client are said to complete in arrival order with at most one bucket
  call in flight. Three calls of one client, the second and third with the same
  timestamp and cost: when the first is answered, the second and the third are both in
  flight; answered in the other order, they settle as first, third, second.
\<close>

theorem colliding_ids_two_in_flight:
  "userId callB = userId callC
   \<and> map_option inFlight
       (run [Request callA, Request callB, Request callC, Answer callA admitted] initial)
     = Some [callB, callC]
   \<and> map_option (\<lambda>s. map fst (settled s))
       (run [Request callA, Request callB, Request callC,
             Answer callA admitted, Answer callC admitted, Answer callB admitted] initial)
     = Some [callA, callC, callB]"
  by (simp add: serializer_defs digits.simps callA_def callB_def callC_def admitted_def)

text \<open>
  C7. A failing bucket call is said to still advance the queue. After the first call's
  bucket call fails, its id is still at the head of the queue, the second call still
  waits for its event and no call is in flight; a third request only queues behind.
\<close>

theorem store_error_blocks_client:
  "map_option (\<lambda>s. (requestQueue s (userId callA), requestEvents s, inFlight s, settled s))
     (run [Request callA, Request callB, Answer callA (Inl (Thrown ''store''))] initial)
   = Some (Some [''11'', ''22''], [(''22'', callB)], [], [(callA, Rejected (Thrown ''store''))])
   \<and> map_option (\<lambda>s. (requestQueue s (userId callA), inFlight s))
     (run [Request callA, Request callB, Answer callA (Inl (Thrown ''store'')), Request callC]
        initial)
   = Some (Some [''11'', ''22'', ''22''], [])"
  by (simp add: serializer_defs digits.simps callA_def callB_def callC_def)

text \<open>
  C8. Every call is said to get a token of its own. Two distinct calls with the same
  timestamp and cost get the same request id, and so do calls whose timestamp and cost
  merely concatenate to the same digits.
\<close>

theorem requestId_not_unique:
  "callB \<noteq> callC
   \<and> requestId (timestamp callB) (cost callB) = requestId (timestamp callC) (cost callC)
   \<and> requestId 1 23 = requestId 12 3"
  by (simp add: requestId_def number_string_def digits.simps callB_def callC_def)

text \<open>
  C9. A rejection with dark mode off is said to be answered with status 429 and a
  \<^verbatim>\<open>Retry-After\<close> header. The status is 429; no header is set, and the body is
  \<^verbatim>\<open>json(undefined)\<close>.
\<close>

theorem rejection_sets_no_retry_after:
  "expressGraphQLRateLimiter_handler False 1000 6 rejected fresh_response
   = Sent \<lparr>locals = [''graphqlGate'' \<mapsto> GraphqlGate 1000 6 4 False None],
           statusCode = Some 429, headers = [], body = Some None\<rparr>"
  by (simp add: expressGraphQLRateLimiter_handler_def fresh_response_def rejected_def)

text \<open>
  C10. A fragment spread, an inline fragment, a fragment definition, a type-system
  definition and an operation whose kind is no key of the weight table each cost 0 and
  raise nothing; a selection set or a document with such a node costs what it costs
  without the node.
\<close>

theorem ignored_nodes_contribute_zero:
  "selectionNode (FragmentSpread fragName) T V p = Inr 0
   \<and> selectionNode (InlineFragment typeCondition ss) T V p = Inr 0
   \<and> definitionNode (FragmentDefinition fragName onType ss) T V = Inr 0
   \<and> definitionNode TypeSystemDefinition T V = Inr 0
   \<and> (\<not> js_in (toLocaleLowerCase (operation_string operation)) T \<longrightarrow>
        definitionNode (OperationDefinition operation opName selectionSet) T V = Inr 0)
   \<and> selectionSetNode (SelectionSetNode (xs @ FragmentSpread fragName # ys)) T V p
       = selectionSetNode (SelectionSetNode (xs @ ys)) T V p
   \<and> selectionSetNode (SelectionSetNode (xs @ InlineFragment typeCondition ss # ys)) T V p
       = selectionSetNode (SelectionSetNode (xs @ ys)) T V p
   \<and> documentNode (DocumentNode (ds @ FragmentDefinition fragName onType ss # es)) T V
       = documentNode (DocumentNode (ds @ es)) T V
   \<and> documentNode (DocumentNode (ds @ TypeSystemDefinition # es)) T V
       = documentNode (DocumentNode (ds @ es)) T V
   \<and> (\<not> js_in (toLocaleLowerCase (operation_string operation)) T \<longrightarrow>
        documentNode (DocumentNode (ds @ OperationDefinition operation opName selectionSet # es)) T V
          = documentNode (DocumentNode (ds @ es)) T V)"
  by (simp add: selectionSetNode_loop_skip documentNode_loop_skip safe_def MAX_SAFE_INTEGER_def)

theorem ignored_nodes_contribute_zero_witness:
  "\<not> js_in (toLocaleLowerCase (operation_string MUTATION))
       (testTypeWeights returns3 returns3 returns3 returns3)
   \<and> definitionNode
        (OperationDefinition MUTATION None (Some (SelectionSetNode [leaf ''createReview''])))
        (testTypeWeights returns3 returns3 returns3 returns3) Map.empty = Inr 0
   \<and> documentNode
        (DocumentNode
           ([OperationDefinition QUERY None (Some (SelectionSetNode [FragmentSpread ''f'']))]
            @ OperationDefinition MUTATION None (Some (SelectionSetNode [leaf ''createReview'']))
            # []))
        (testTypeWeights returns3 returns3 returns3 returns3) Map.empty = Inr 1"
proof -
  let ?T = "testTypeWeights returns3 returns3 returns3 returns3"
  have no_key: "\<not> js_in (toLocaleLowerCase (operation_string MUTATION)) ?T"
    by (simp add: lookup_defs testTypeWeights_def)
  have short: "documentNode
        (DocumentNode
           ([OperationDefinition QUERY None (Some (SelectionSetNode [FragmentSpread ''f'']))] @ []))
        ?T Map.empty = Inr 1"
    by (simp add: lookup_defs testTypeWeights_def)
  from ignored_nodes_contribute_zero[of _ ?T Map.empty _ _ _ _ MUTATION None
      "Some (SelectionSetNode [leaf ''createReview''])" _ _
      "[OperationDefinition QUERY None (Some (SelectionSetNode [FragmentSpread ''f'']))]" "[]"]
    no_key short
  show ?thesis by simp
qed

end
